theory Spec2Isabelle
  imports Complex_Main
begin

section \<open>The information gain criterion of the decision tree\<close>

text \<open>
  The embedding of \<^verbatim>\<open>InformationGain\<close> from
  \<^verbatim>\<open>src/mlpack/methods/decision_tree/information_gain.hpp\<close>.

  Data: a label row \<^verbatim>\<open>arma::Row<size_t>\<close> is a \<open>nat list\<close>, a weight row
  \<^verbatim>\<open>arma::Row<double>\<close> and the accumulator \<^verbatim>\<open>arma::Col<double>\<close> are
  \<open>real list\<close>s, \<^verbatim>\<open>size_t\<close> is \<open>nat\<close> (the code does no integer arithmetic besides
  the loop counters, which stay below the lengths they are compared with).

  Numbers: a \<^verbatim>\<open>double\<close> is read as a \<open>real\<close> and \<^verbatim>\<open>std::log2\<close> as \<open>log 2\<close>, that is
  the arithmetic of the code is taken as exact. Rounding, overflow to infinity and NaN are
  outside this model.

  Errors: the unchecked \<^verbatim>\<open>operator[]\<close> of the code has undefined behaviour outside
  the vector; the model returns \<open>Inl OutOfBounds\<close> there.
\<close>

datatype error = OutOfBounds

subsection \<open>Counting the classes\<close>

text \<open>
  \<^verbatim>\<open>for (size_t i = 0; i < labels.n_elem; ++i) counts[labels[i]]++;\<close>
\<close>

function count_unweighted :: "nat list \<Rightarrow> nat \<Rightarrow> real list \<Rightarrow> error + real list" where
  "count_unweighted labels i counts =
     (if i < length labels then
        (if labels ! i < length counts then
           count_unweighted labels (Suc i) (counts[labels ! i := counts ! (labels ! i) + 1])
         else Inl OutOfBounds)
      else Inr counts)"
  by pat_completeness auto
termination
  by (relation "measure (\<lambda>(labels, i, counts). length labels - i)") auto

text \<open>
  \<^verbatim>\<open>for (size_t i = 0; i < labels.n_elem; ++i)
  { counts[labels[i]] += weights[i]; accWeights += weights[i]; }\<close>
\<close>

function count_weighted ::
  "nat list \<Rightarrow> real list \<Rightarrow> nat \<Rightarrow> real list \<Rightarrow> real \<Rightarrow> error + real list \<times> real" where
  "count_weighted labels weights i counts accWeights =
     (if i < length labels then
        (if labels ! i < length counts \<and> i < length weights then
           count_weighted labels weights (Suc i)
             (counts[labels ! i := counts ! (labels ! i) + weights ! i])
             (accWeights + weights ! i)
         else Inl OutOfBounds)
      else Inr (counts, accWeights))"
  by pat_completeness auto
termination
  by (relation "measure (\<lambda>(labels, weights, i, counts, accWeights). length labels - i)") auto

subsection \<open>The summation loop\<close>

text \<open>
  \<^verbatim>\<open>for (size_t i = 0; i < numClasses; ++i)
  { const double f = counts[i] / denom; if (f > 0.0) gain += f * std::log2(f); }\<close>
  where \<^verbatim>\<open>denom\<close> is \<^verbatim>\<open>accWeights\<close> in the weighted branch and
  \<^verbatim>\<open>labels.n_elem\<close> in the other one. The accumulator has \<^verbatim>\<open>numClasses\<close> elements,
  so \<^verbatim>\<open>counts[i]\<close> is always inside it.
\<close>

function gain_loop :: "real list \<Rightarrow> real \<Rightarrow> nat \<Rightarrow> nat \<Rightarrow> real \<Rightarrow> real" where
  "gain_loop counts denom numClasses i gain =
     (if i < numClasses then
        (let f = counts ! i / denom in
           gain_loop counts denom numClasses (Suc i)
             (if f > 0 then gain + f * log 2 f else gain))
      else gain)"
  by pat_completeness auto
termination
  by (relation "measure (\<lambda>(counts, denom, numClasses, i, gain). numClasses - i)") auto

subsection \<open>Evaluate and Range\<close>

text \<open>
  \<^verbatim>\<open>template<bool UseWeights> static double Evaluate(labels, numClasses, weights)\<close>:
  the template parameter is the first argument.
\<close>

definition Evaluate :: "bool \<Rightarrow> nat list \<Rightarrow> nat \<Rightarrow> real list \<Rightarrow> error + real" where
  "Evaluate UseWeights labels numClasses weights =
     (if length labels = 0 then Inr 0
      else
        let gain = 0;
            counts = replicate numClasses 0
        in
          if UseWeights then
            (case count_weighted labels weights 0 counts 0 of
               Inl e \<Rightarrow> Inl e
             | Inr (counts', accWeights) \<Rightarrow>
                 if accWeights = 0 then Inr 0
                 else Inr (gain_loop counts' accWeights numClasses 0 gain))
          else
            (case count_unweighted labels 0 counts of
               Inl e \<Rightarrow> Inl e
             | Inr counts' \<Rightarrow>
                 Inr (gain_loop counts' (real (length labels)) numClasses 0 gain)))"

text \<open>
  \<^verbatim>\<open>static double Range(const size_t numClasses) { return std::log2(numClasses); }\<close>,
  named \<open>Range_gain\<close> here since \<open>Range\<close> is the range of a relation in HOL.
\<close>

definition Range_gain :: "nat \<Rightarrow> real" where
  "Range_gain numClasses = log 2 (real numClasses)"

subsection \<open>The quantities of the specification\<close>

text \<open>
  The specification speaks of class counts, weighted class counts, the total weight, the
  frequencies built from them, and the sum of \<open>f * log2 f\<close> over the classes of positive
  frequency. These are written here from its words, to be compared with the code above.
  A point is a label with its weight; \<open>zip labels weights\<close> pairs \<^verbatim>\<open>labels[i]\<close> with
  \<^verbatim>\<open>weights[i]\<close>.
\<close>

definition class_weight :: "(nat \<times> real) list \<Rightarrow> nat \<Rightarrow> real" where
  "class_weight points c = sum_list (map snd (filter (\<lambda>p. fst p = c) points))"

definition total_weight :: "(nat \<times> real) list \<Rightarrow> real" where
  "total_weight points = sum_list (map snd points)"


definition weighted_frequency :: "nat list \<Rightarrow> real list \<Rightarrow> nat \<Rightarrow> real" where
  "weighted_frequency labels weights c =
     class_weight (zip labels weights) c / total_weight (zip labels weights)"


text \<open>What one pass of the summation loop adds to \<^verbatim>\<open>gain\<close> for the quotient \<open>f\<close>.\<close>

definition contribution :: "real \<Rightarrow> real" where
  "contribution f = (if f > 0 then f * log 2 f else 0)"

declare count_unweighted.simps [simp del]
declare count_weighted.simps [simp del]
declare gain_loop.simps [simp del]

section \<open>Degenerate inputs\<close>

text \<open>
  Claim C3. For every class count (in particular every \<open>numClasses \<ge> 1\<close>) and in both
  modes, \<open>Evaluate\<close> on the empty label vector returns exactly 0, whatever the weights.
\<close>

theorem Evaluate_empty: "Evaluate UseWeights [] numClasses weights = Inr 0"
  by (simp add: Evaluate_def)

section \<open>Closed forms of the three iterations\<close>

text \<open>
  The summation loop adds one \<open>contribution\<close> per class, in the order of the classes.
\<close>

lemma gain_loop_sum:
  "gain_loop counts denom numClasses i gain =
     gain + (\<Sum>j\<leftarrow>[i..<numClasses]. contribution (counts ! j / denom))"
proof (induction counts denom numClasses i gain rule: gain_loop.induct)
  case (1 counts denom numClasses i gain)
  show ?case
  proof (cases "i < numClasses")
    case True
    then show ?thesis
      using "1.IH" [OF True refl]
      by (subst gain_loop.simps) (simp add: upt_conv_Cons contribution_def Let_def)
  next
    case False
    then show ?thesis
      by (subst gain_loop.simps) simp
  qed
qed

lemma count_unweighted_length:
  "count_unweighted labels i counts = Inr counts' \<Longrightarrow> length counts' = length counts"
proof (induction labels i counts rule: count_unweighted.induct)
  case (1 labels i counts)
  then show ?case
    by (subst (asm) (2) count_unweighted.simps) (auto split: if_splits)
qed

lemma count_weighted_length:
  "count_weighted labels weights i counts acc = Inr (counts', acc') \<Longrightarrow>
     length counts' = length counts"
proof (induction labels weights i counts acc rule: count_weighted.induct)
  case (1 labels weights i counts acc)
  then show ?case
    by (subst (asm) (2) count_weighted.simps) (auto split: if_splits)
qed


lemma count_weighted_closed:
  assumes "\<forall>l\<in>set labels. l < length counts" and "length labels \<le> length weights"
  shows "count_weighted labels weights i counts acc =
           Inr (map (\<lambda>c. counts ! c + class_weight (drop i (zip labels weights)) c)
                  [0..<length counts],
                acc + total_weight (drop i (zip labels weights)))"
  using assms
proof (induction labels weights i counts acc rule: count_weighted.induct)
  case (1 labels weights i counts acc)
  show ?case
  proof (cases "i < length labels")
    case True
    let ?l = "labels ! i" and ?w = "weights ! i"
    let ?counts = "counts[?l := counts ! ?l + ?w]"
    have l: "?l < length counts" and iw: "i < length weights"
      using True "1.prems" by simp_all
    have d: "drop i (zip labels weights) = (?l, ?w) # drop (Suc i) (zip labels weights)"
      using True iw by (simp add: Cons_nth_drop_Suc [symmetric])
    have "count_weighted labels weights i counts acc =
            count_weighted labels weights (Suc i) ?counts (acc + ?w)"
      using True l iw by (subst count_weighted.simps) simp
    also have "\<dots> = Inr (map (\<lambda>c. ?counts ! c + class_weight (drop (Suc i) (zip labels weights)) c)
                          [0..<length ?counts],
                        acc + ?w + total_weight (drop (Suc i) (zip labels weights)))"
      using "1.IH" True l iw "1.prems" by simp
    also have "\<dots> = Inr (map (\<lambda>c. counts ! c + class_weight (drop i (zip labels weights)) c)
                          [0..<length counts],
                        acc + total_weight (drop i (zip labels weights)))"
      using l by (simp add: d nth_list_update class_weight_def total_weight_def)
    finally show ?thesis .
  next
    case False
    then show ?thesis
      by (subst count_weighted.simps) (simp add: map_nth class_weight_def total_weight_def)
  qed
qed


lemma sum_list_nth_map_upt:
  "(\<Sum>j\<leftarrow>[0..<k]. g (map h [0..<k] ! j / d)) = (\<Sum>j\<leftarrow>[0..<k]. g (h j / d))"
  by (rule arg_cong [where f = sum_list], rule map_cong) simp_all


lemma Evaluate_weighted_closed:
  assumes "labels \<noteq> []" and "\<forall>l\<in>set labels. l < numClasses"
    and "length labels \<le> length weights"
  shows "Evaluate True labels numClasses weights =
           Inr (if total_weight (zip labels weights) = 0 then 0
                else \<Sum>c\<leftarrow>[0..<numClasses]. contribution (weighted_frequency labels weights c))"
proof -
  have "count_weighted labels weights 0 (replicate numClasses 0) 0 =
          Inr (map (class_weight (zip labels weights)) [0..<numClasses],
               total_weight (zip labels weights))"
    using assms(2,3) by (simp add: count_weighted_closed cong: map_cong)
  then show ?thesis
    using assms(1)
    by (simp add: Evaluate_def gain_loop_sum weighted_frequency_def sum_list_nth_map_upt)
qed

lemma total_weight_zip:
  "length labels \<le> length weights \<Longrightarrow>
     total_weight (zip labels weights) = sum_list (take (length labels) weights)"
  by (simp add: total_weight_def map_snd_zip_take min_def)

section \<open>The value of Evaluate\<close>



text \<open>
  Claim C4. In weighted mode, when the weights of the points add up to exactly 0, \<open>Evaluate\<close>
  returns 0 whatever the (in-range) labels are: the guard on \<^verbatim>\<open>accWeights\<close> returns
  before any division.
\<close>

theorem Evaluate_zero_weight:
  assumes "\<forall>l\<in>set labels. l < numClasses" and "length labels \<le> length weights"
    and "sum_list (take (length labels) weights) = 0"
  shows "Evaluate True labels numClasses weights = Inr 0"
proof (cases "labels = []")
  case True
  then show ?thesis by (simp add: Evaluate_def)
next
  case False
  then show ?thesis
    using assms by (simp add: Evaluate_weighted_closed total_weight_zip)
qed

theorem Evaluate_zero_weight_witness:
  "Evaluate True [0, 1] 2 [0, 0] = Inr 0 \<and> Evaluate True [1, 0, 1] 3 [2, 0, - 2] = Inr 0"
  using Evaluate_zero_weight [of "[0, 1]" 2 "[0, 0]"]
    Evaluate_zero_weight [of "[1, 0, 1]" 3 "[2, 0, - 2]"]
  by simp

section \<open>Range\<close>

text \<open>
  Claim C6. For every positive \<open>numClasses\<close>, \<open>Range_gain numClasses\<close> is \<open>log2 numClasses\<close>; it is
  0 for one class, 2 for four classes and 3 for eight classes. \<open>Range_gain\<close> is a function of
  \<open>numClasses\<close> alone.
\<close>

theorem Range_log2:
  "(0 < numClasses \<longrightarrow> Range_gain numClasses = log 2 (real numClasses))
   \<and> Range_gain 1 = 0 \<and> Range_gain 4 = 2 \<and> Range_gain 8 = 3"
proof -
  have "log 2 4 = (2::real)" and "log 2 8 = (3::real)"
    using log_pow_cancel [of 2 2] log_pow_cancel [of 2 3] by simp_all
  then show ?thesis
    by (simp add: Range_gain_def)
qed

theorem Range_log2_witness: "Range_gain 16 = log 2 16 \<and> Range_gain 2 = 1"
  using Range_log2 [of 16] Range_log2 [of 2] by simp

section \<open>Relations between runs\<close>





text \<open>
  Classes added after the last one stay at count 0 while the classes are counted, and
  the counting runs as before otherwise.
\<close>

lemma count_unweighted_append:
  assumes "\<forall>l\<in>set labels. l < length counts"
  shows "count_unweighted labels i (counts @ extra) =
           (case count_unweighted labels i counts of
              Inl e \<Rightarrow> Inl e
            | Inr counts' \<Rightarrow> Inr (counts' @ extra))"
  using assms
proof (induction labels i counts rule: count_unweighted.induct)
  case (1 labels i counts)
  show ?case
  proof (cases "i < length labels")
    case True
    then have l: "labels ! i < length counts"
      using "1.prems" by simp
    then have l': "labels ! i < length counts + length extra"
      by simp
    show ?thesis
      using "1.IH" [OF True l] "1.prems" True l l'
      by (subst count_unweighted.simps, subst (2) count_unweighted.simps)
        (simp add: nth_append list_update_append)
  next
    case False
    then show ?thesis
      by (subst count_unweighted.simps, subst (2) count_unweighted.simps) simp
  qed
qed

lemma count_weighted_append:
  assumes "\<forall>l\<in>set labels. l < length counts"
  shows "count_weighted labels weights i (counts @ extra) acc =
           (case count_weighted labels weights i counts acc of
              Inl e \<Rightarrow> Inl e
            | Inr (counts', acc') \<Rightarrow> Inr (counts' @ extra, acc'))"
  using assms
proof (induction labels weights i counts acc rule: count_weighted.induct)
  case (1 labels weights i counts acc)
  show ?case
  proof (cases "i < length labels")
    case True
    note i = this
    then have l: "labels ! i < length counts"
      using "1.prems" by simp
    then have l': "labels ! i < length counts + length extra"
      by simp
    show ?thesis
    proof (cases "i < length weights")
      case True
      then show ?thesis
        using "1.IH" "1.prems" i l l'
        by (subst count_weighted.simps, subst (2) count_weighted.simps)
          (simp add: nth_append list_update_append)
    next
      case False
      then show ?thesis
        using i by (subst count_weighted.simps, subst (2) count_weighted.simps) simp
    qed
  next
    case False
    then show ?thesis
      by (subst count_weighted.simps, subst (2) count_weighted.simps) simp
  qed
qed

lemma gain_loop_zero_count:
  assumes "i < numClasses" and "counts ! i = 0"
  shows "gain_loop counts denom numClasses i gain =
           gain_loop counts denom numClasses (Suc i) gain"
  using assms by (subst gain_loop.simps) simp

lemma gain_loop_append_zeros:
  assumes "length counts = numClasses"
  shows "gain_loop (counts @ replicate m 0) denom (numClasses + m) 0 gain =
           gain_loop counts denom numClasses 0 gain"
proof -
  have "(\<Sum>j\<leftarrow>[0..<numClasses]. contribution ((counts @ replicate m 0) ! j / denom)) =
          (\<Sum>j\<leftarrow>[0..<numClasses]. contribution (counts ! j / denom))"
    using assms by (intro arg_cong [where f = sum_list] map_cong) (simp_all add: nth_append)
  moreover have "(\<Sum>j\<leftarrow>[numClasses..<numClasses + m].
                    contribution ((counts @ replicate m 0) ! j / denom)) =
                 (\<Sum>j\<leftarrow>[numClasses..<numClasses + m]. 0)"
    using assms
    by (intro arg_cong [where f = sum_list] map_cong)
      (auto simp add: nth_append contribution_def)
  ultimately show ?thesis
    by (simp add: gain_loop_sum upt_add_eq_append [of 0 numClasses m])
qed

text \<open>
  Claim C9. A class whose count is 0 leaves \<^verbatim>\<open>gain\<close> as it is when the summation loop
  passes it (the quotient is not positive, so the guard skips the logarithm), in either
  mode; and when \<open>numClasses\<close> bounds all labels, \<open>Evaluate\<close> returns the same for every larger
  class count.
\<close>

theorem Evaluate_more_classes:
  assumes "\<forall>l\<in>set labels. l < numClasses" and "numClasses \<le> numClasses'"
  shows "(i < numClasses \<and> counts ! i = 0 \<longrightarrow>
            gain_loop counts denom numClasses i gain =
              gain_loop counts denom numClasses (Suc i) gain)
         \<and> Evaluate UseWeights labels numClasses' weights =
             Evaluate UseWeights labels numClasses weights"
proof
  show "i < numClasses \<and> counts ! i = 0 \<longrightarrow>
          gain_loop counts denom numClasses i gain =
            gain_loop counts denom numClasses (Suc i) gain"
    by (simp add: gain_loop_zero_count)
next
  obtain m where m: "numClasses' = numClasses + m"
    using assms(2) le_Suc_ex by blast
  have zeros: "replicate numClasses' (0::real) = replicate numClasses 0 @ replicate m 0"
    by (simp add: m replicate_add)
  show "Evaluate UseWeights labels numClasses' weights =
          Evaluate UseWeights labels numClasses weights"
  proof (cases UseWeights)
    case True
    show ?thesis
    proof (cases "count_weighted labels weights 0 (replicate numClasses 0) 0")
      case (Inl e)
      then show ?thesis
        using True assms(1) by (simp add: Evaluate_def zeros count_weighted_append)
    next
      case (Inr r)
      then obtain counts' acc' where
        r: "count_weighted labels weights 0 (replicate numClasses 0) 0 = Inr (counts', acc')"
        by (cases r) simp
      then have "length counts' = numClasses"
        using count_weighted_length by fastforce
      then show ?thesis
        using True assms(1) r
        by (simp add: Evaluate_def zeros count_weighted_append)
          (simp add: m gain_loop_append_zeros)
    qed
  next
    case False
    show ?thesis
    proof (cases "count_unweighted labels 0 (replicate numClasses 0)")
      case (Inl e)
      then show ?thesis
        using False assms(1) by (simp add: Evaluate_def zeros count_unweighted_append)
    next
      case (Inr counts')
      then have "length counts' = numClasses"
        using count_unweighted_length by fastforce
      then show ?thesis
        using False assms(1) Inr
        by (simp add: Evaluate_def zeros count_unweighted_append)
          (simp add: m gain_loop_append_zeros)
    qed
  qed
qed

theorem Evaluate_more_classes_witness:
  "Evaluate False [0, 0, 1, 1] 5 [] = Inr (- 1)
   \<and> Evaluate True [0, 1] 4 [1, 1] = Evaluate True [0, 1] 2 [1, 1]
   \<and> gain_loop [1, 0] 2 2 1 0 = gain_loop [1, 0] 2 2 (Suc 1) 0"
proof -
  have "log 2 (1 / 2) = - 1"
    by (simp add: log_divide)
  then have "Evaluate False [0, 0, 1, 1] 2 [] = Inr (- 1)"
    by (simp add: Evaluate_def count_unweighted.simps gain_loop.simps Let_def)
  then show ?thesis
    using Evaluate_more_classes [of "[0, 0, 1, 1]" 2 5 1 "[1, 0]" 2 0 False "[]"]
      Evaluate_more_classes [of "[0, 1]" 2 4 1 "[1, 0]" 2 0 True "[1, 1]"]
    by simp
qed

text \<open>A point of weight 0 changes neither a weighted class count nor the total weight.\<close>

lemma class_weight_zero_point:
  assumes "length ws1 = length ls1"
  shows "class_weight (zip (ls1 @ l # ls2) (ws1 @ 0 # ws2)) c =
           class_weight (zip (ls1 @ ls2) (ws1 @ ws2)) c"
  using assms by (simp add: class_weight_def)

lemma total_weight_zero_point:
  assumes "length ws1 = length ls1"
  shows "total_weight (zip (ls1 @ l # ls2) (ws1 @ 0 # ws2)) =
           total_weight (zip (ls1 @ ls2) (ws1 @ ws2))"
  using assms by (simp add: total_weight_def)

lemma weighted_frequency_zero_point:
  assumes "length ws1 = length ls1"
  shows "weighted_frequency (ls1 @ l # ls2) (ws1 @ 0 # ws2) c =
           weighted_frequency (ls1 @ ls2) (ws1 @ ws2) c"
  unfolding weighted_frequency_def
  by (simp only: class_weight_zero_point [OF assms] total_weight_zero_point [OF assms])

text \<open>
  Claim C10. In weighted mode a point of weight exactly 0 is a no-op: for in-range labels
  and weights aligned with them, putting a point \<open>(l, 0)\<close> with \<open>l < numClasses\<close> anywhere into
  the inputs (at the end when \<open>ls2\<close> and \<open>ws2\<close> are empty), or taking it out, leaves the
  value of \<open>Evaluate\<close> unchanged.
\<close>

theorem Evaluate_zero_weight_point:
  assumes "\<forall>x\<in>set (ls1 @ ls2). x < numClasses" and "l < numClasses"
    and "length ws1 = length ls1" and "length ls2 \<le> length ws2"
  shows "Evaluate True (ls1 @ l # ls2) numClasses (ws1 @ 0 # ws2) =
           Evaluate True (ls1 @ ls2) numClasses (ws1 @ ws2)"
proof -
  have valid: "\<forall>x\<in>set (ls1 @ l # ls2). x < numClasses"
    and len: "length (ls1 @ l # ls2) \<le> length (ws1 @ 0 # ws2)"
    using assms by simp_all
  have left: "Evaluate True (ls1 @ l # ls2) numClasses (ws1 @ 0 # ws2) =
      Inr (if total_weight (zip (ls1 @ ls2) (ws1 @ ws2)) = 0 then 0
           else \<Sum>c\<leftarrow>[0..<numClasses].
                  contribution (weighted_frequency (ls1 @ ls2) (ws1 @ ws2) c))"
  proof -
    have "ls1 @ l # ls2 \<noteq> []"
      by simp
    from Evaluate_weighted_closed [OF this valid len] show ?thesis
      by (simp only: weighted_frequency_zero_point [OF assms(3)]
          total_weight_zero_point [OF assms(3)])
  qed
  show ?thesis
  proof (cases "ls1 @ ls2 = []")
    case True
    then show ?thesis
      using left assms(3) by (simp add: Evaluate_def total_weight_def)
  next
    case False
    have "length (ls1 @ ls2) \<le> length (ws1 @ ws2)"
      using assms(3,4) by simp
    then show ?thesis
      using left Evaluate_weighted_closed [OF False assms(1)] by simp
  qed
qed

theorem Evaluate_zero_weight_point_witness:
  "Evaluate True [0, 1, 0] 2 [1, 0, 3] = Evaluate True [0, 0] 2 [1, 3]
   \<and> Evaluate True [0, 1, 1] 2 [1, 3, 0] = Evaluate True [0, 1] 2 [1, 3]"
  using Evaluate_zero_weight_point [of "[0]" "[0]" 2 1 "[1]" "[3]"]
    Evaluate_zero_weight_point [of "[0, 1]" "[]" 2 1 "[1, 3]" "[]"]
  by simp

section \<open>Bounds of the sum\<close>







section \<open>The frequencies add up to one\<close>











section \<open>The range of Evaluate\<close>





section \<open>When Evaluate is zero\<close>










end
